theory Spec2Isabelle
  imports Main "HOL-Library.Product_Lexorder"
begin

section \<open>Data model of the forum service\<close>

text \<open>
  The service in \<^verbatim>\<open>ForumService.ts\<close> is a set of asynchronous functions over a remote
  document store. The store is modelled as a record of its collections; every function
  takes the store and returns its result together with the store it leaves behind. A
  rejected promise is the \<open>Inl\<close> branch of the result.
\<close>

text \<open>The argument \<^verbatim>\<open>value: 1 | -1\<close> of \<^verbatim>\<open>vote\<close>: \<open>Up\<close> is \<^verbatim>\<open>1\<close>, \<open>Down\<close> is \<^verbatim>\<open>-1\<close>.\<close>

datatype vote_value = Up | Down

text \<open>
  A document of the subcollection \<^verbatim>\<open>{FORUM_POSTS}/{postId}/{VOTES}/{uid}\<close>. Its only field is
  \<^verbatim>\<open>value\<close>; \<open>None\<close> is a document without that field (what \<^verbatim>\<open>?.value ?? null\<close> guards).
\<close>

type_synonym VoteData = "vote_value option"

text \<open>
  A post document. Only the fields the voting path reads or writes are kept: the owner
  \<^verbatim>\<open>uid\<close> and the two counters, which \<^verbatim>\<open>createPost\<close> initialises to \<^verbatim>\<open>0\<close>. The store's
  \<^verbatim>\<open>increment\<close> adds to a number without any bound check, so the counters are integers.
\<close>

record ForumPost =
  uid :: string
  upVotes :: int
  downVotes :: int

datatype notification_type = upvote | downvote

record NotificationData =
  ntype :: notification_type
  toUid :: string
  fromUid :: string
  n_postId :: string
  n_createdAt :: nat

record PostSummary =
  ps_id :: nat
  ps_postId :: string
  ps_summary :: string
  ps_createdAt :: nat
  ps_updatedAt :: nat

record CommentSummary =
  cs_id :: nat
  cs_postId :: string
  cs_summary :: string
  cs_commentCount :: nat
  cs_createdAt :: nat
  cs_updatedAt :: nat

record ForumComment =
  c_author :: string
  c_content :: string

datatype summary_type = post | comments

text \<open>The argument object of \<^verbatim>\<open>huggingFaceService.summarizeContent\<close>.\<close>

record SummarizeRequest =
  req_content :: string
  req_type :: summary_type
  req_maxLength :: nat

text \<open>
  Why a promise is rejected: a store call that fails for a reason outside the program
  (network, permissions, a missing index), \<^verbatim>\<open>updateDoc\<close> on a document that does not exist,
  or the summarisation service.
\<close>

datatype error = StoreError | NotFound | GeneratorError

text \<open>The successful writes, in the order in which the store performed them.\<close>

datatype store_write =
    DeleteVote string string
  | UpdatePost string "int \<times> int"
  | SetVote string string vote_value
  | AddNotification
  | AddPostSummary
  | AddCommentSummary

text \<open>
  The store. \<open>faults\<close> is the environment's answer to the coming store calls, one entry
  per call (\<open>True\<close>: this call is rejected), every call after the list has run out succeeds.
  \<open>clock\<close> is the server's time, read by \<^verbatim>\<open>serverTimestamp()\<close>; \<open>nextId\<close> stands for the
  identifier \<^verbatim>\<open>addDoc\<close> generates. \<open>writes\<close> and \<open>generatorCalls\<close> record what was done,
  so that the order of effects and the number of generator invocations can be stated.
\<close>

record store =
  posts :: "string \<rightharpoonup> ForumPost"
  votes :: "string \<times> string \<rightharpoonup> VoteData"
  notifications :: "NotificationData list"
  postSummaries :: "PostSummary list"
  commentSummaries :: "CommentSummary list"
  clock :: nat
  nextId :: nat
  faults :: "bool list"
  writes :: "store_write list"
  generatorCalls :: "SummarizeRequest list"

section \<open>Store primitives\<close>

definition store_call :: "store \<Rightarrow> bool \<times> store" where
  "store_call s = (case faults s of [] \<Rightarrow> (False, s) | f # fs \<Rightarrow> (f, s\<lparr>faults := fs\<rparr>))"

text \<open>\<^verbatim>\<open>getDoc(voteDocRef)\<close>: the snapshot, \<open>None\<close> when the document does not exist.\<close>

definition getDoc_vote :: "store \<Rightarrow> string \<Rightarrow> string \<Rightarrow> (error + VoteData option) \<times> store" where
  "getDoc_vote s postId u =
     (let (failed, s') = store_call s in
      if failed then (Inl StoreError, s') else (Inr (votes s' (postId, u)), s'))"

text \<open>\<^verbatim>\<open>deleteDoc(voteDocRef)\<close>: succeeds whether or not the document exists.\<close>

definition deleteDoc_vote :: "store \<Rightarrow> string \<Rightarrow> string \<Rightarrow> (error + unit) \<times> store" where
  "deleteDoc_vote s postId u =
     (let (failed, s') = store_call s in
      if failed then (Inl StoreError, s')
      else (Inr (), s'\<lparr>votes := (votes s')((postId, u) := None),
                       writes := writes s' @ [DeleteVote postId u]\<rparr>))"

text \<open>
  \<^verbatim>\<open>updateDoc(doc(db, FORUM_POSTS, postId), fields)\<close> where every field is an
  \<^verbatim>\<open>increment\<close>: the pair holds the increments of \<^verbatim>\<open>upVotes\<close> and \<^verbatim>\<open>downVotes\<close>, \<open>0\<close> for a
  field the update does not name. \<^verbatim>\<open>updateDoc\<close> rejects when the document does not exist.
\<close>

definition updateDoc_post :: "store \<Rightarrow> string \<Rightarrow> int \<times> int \<Rightarrow> (error + unit) \<times> store" where
  "updateDoc_post s postId incs =
     (let (failed, s') = store_call s in
      if failed then (Inl StoreError, s')
      else case posts s' postId of
             None \<Rightarrow> (Inl NotFound, s')
           | Some d \<Rightarrow>
               (Inr (), s'\<lparr>posts := (posts s')(postId \<mapsto>
                              d\<lparr>upVotes := upVotes d + fst incs,
                                downVotes := downVotes d + snd incs\<rparr>),
                            writes := writes s' @ [UpdatePost postId incs]\<rparr>))"

text \<open>\<^verbatim>\<open>setDoc(voteDocRef, { value }, { merge: true })\<close>: creates the document or sets its field.\<close>

definition setDoc_vote :: "store \<Rightarrow> string \<Rightarrow> string \<Rightarrow> vote_value \<Rightarrow> (error + unit) \<times> store" where
  "setDoc_vote s postId u v =
     (let (failed, s') = store_call s in
      if failed then (Inl StoreError, s')
      else (Inr (), s'\<lparr>votes := (votes s')((postId, u) \<mapsto> Some v),
                       writes := writes s' @ [SetVote postId u v]\<rparr>))"

section \<open>Voting\<close>

text \<open>Line 137: \<^verbatim>\<open>existingSnap.exists() ? (existingSnap.data()?.value ?? null) : null\<close>.\<close>

definition prev_of :: "VoteData option \<Rightarrow> vote_value option" where
  "prev_of existingSnap = (case existingSnap of None \<Rightarrow> None | Some d \<Rightarrow> d)"

text \<open>The function \<^verbatim>\<open>vote\<close>, lines 134 to 158.\<close>

definition vote :: "store \<Rightarrow> string \<Rightarrow> string \<Rightarrow> vote_value \<Rightarrow> (error + unit) \<times> store" where
  "vote s postId u v =
     (case getDoc_vote s postId u of
        (Inl e, s1) \<Rightarrow> (Inl e, s1)
      | (Inr existingSnap, s1) \<Rightarrow>
          (let prev = prev_of existingSnap in
           if prev = Some v then
             (case deleteDoc_vote s1 postId u of
                (Inl e, s2) \<Rightarrow> (Inl e, s2)
              | (Inr _, s2) \<Rightarrow>
                  updateDoc_post s2 postId (if v = Up then (-1, 0) else (0, -1)))
           else
             (let updateFields =
                    (if prev = None
                     then (if v = Up then (1, 0) else (0, 1))
                     else (if v = Up then (1, -1) else (-1, 1)))
              in case updateDoc_post s1 postId updateFields of
                   (Inl e, s2) \<Rightarrow> (Inl e, s2)
                 | (Inr _, s2) \<Rightarrow> setDoc_vote s2 postId u v)))"

subsection \<open>The transitions of the specification\<close>

text \<open>
  The specification names the three branches of \<^verbatim>\<open>vote\<close>: \<open>Unvote\<close> is the branch
  \<^verbatim>\<open>prev === value\<close>, \<open>Cast\<close> the branch \<^verbatim>\<open>prev == null\<close>, \<open>Switch\<close> the remaining one. The
  argument is the requested value; for \<open>Switch\<close> the previous value is the other one.
\<close>

datatype transition = Cast vote_value | Unvote vote_value | Switch vote_value

definition classify :: "vote_value option \<Rightarrow> vote_value \<Rightarrow> transition" where
  "classify prev v =
     (if prev = Some v then Unvote v else if prev = None then Cast v else Switch v)"

text \<open>The delta table of the specification (section 4.2), written from its rows.\<close>

fun delta :: "transition \<Rightarrow> int \<times> int" where
  "delta (Cast Up) = (1, 0)"
| "delta (Cast Down) = (0, 1)"
| "delta (Unvote Up) = (-1, 0)"
| "delta (Unvote Down) = (0, -1)"
| "delta (Switch Down) = (-1, 1)"
| "delta (Switch Up) = (1, -1)"

definition add_delta :: "int \<times> int \<Rightarrow> int \<times> int \<Rightarrow> int \<times> int" where
  "add_delta a b = (fst a + fst b, snd a + snd b)"

fun sum_deltas :: "transition list \<Rightarrow> int \<times> int" where
  "sum_deltas [] = (0, 0)"
| "sum_deltas (t # ts) = add_delta (delta t) (sum_deltas ts)"

text \<open>The voter's previous vote as \<^verbatim>\<open>vote\<close> would read it from the store.\<close>

definition prev_vote :: "store \<Rightarrow> string \<Rightarrow> string \<Rightarrow> vote_value option" where
  "prev_vote s postId u = prev_of (votes s (postId, u))"

definition counters :: "store \<Rightarrow> string \<Rightarrow> (int \<times> int) option" where
  "counters s postId = map_option (\<lambda>d. (upVotes d, downVotes d)) (posts s postId)"

text \<open>
  A sequence of submissions by one voter on one post: the transitions classified at each
  call, from the vote record found at that moment, and the final store.
\<close>

fun vote_all :: "store \<Rightarrow> string \<Rightarrow> string \<Rightarrow> vote_value list \<Rightarrow> transition list \<times> store" where
  "vote_all s postId u [] = ([], s)"
| "vote_all s postId u (v # vs) =
     (let t = classify (prev_vote s postId u) v;
          (ts, s') = vote_all (snd (vote s postId u v)) postId u vs
      in (t # ts, s'))"

text \<open>A sequence of submissions by any voters on any posts, in order.\<close>

fun vote_requests :: "store \<Rightarrow> (string \<times> string \<times> vote_value) list \<Rightarrow> store" where
  "vote_requests s [] = s"
| "vote_requests s ((postId, u, v) # rs) = vote_requests (snd (vote s postId u v)) rs"

text \<open>
  The voters whose live record on a post holds the value \<open>v\<close>, and the consistency of the
  counters with the ledger: each counter of each post is at least the number of live
  records of its direction.
\<close>

definition voters :: "store \<Rightarrow> string \<Rightarrow> vote_value \<Rightarrow> string set" where
  "voters s postId v = {u. votes s (postId, u) = Some (Some v)}"

definition ledger_consistent :: "store \<Rightarrow> bool" where
  "ledger_consistent s \<longleftrightarrow>
     finite (dom (votes s)) \<and>
     (\<forall>postId d. posts s postId = Some d \<longrightarrow>
        int (card (voters s postId Up)) \<le> upVotes d \<and>
        int (card (voters s postId Down)) \<le> downVotes d)"

section \<open>Notifications\<close>

text \<open>The function \<^verbatim>\<open>createNotification\<close>, lines 160 to 173: one \<^verbatim>\<open>addDoc\<close>, no condition.\<close>

definition createNotification ::
  "store \<Rightarrow> notification_type \<Rightarrow> string \<Rightarrow> string \<Rightarrow> string \<Rightarrow> (error + unit) \<times> store" where
  "createNotification s ty to_uid from_uid postId =
     (let (failed, s') = store_call s in
      if failed then (Inl StoreError, s')
      else (Inr (), s'\<lparr>notifications := notifications s' @
                         [\<lparr>ntype = ty, toUid = to_uid, fromUid = from_uid,
                           n_postId = postId, n_createdAt = clock s'\<rparr>],
                       clock := Suc (clock s'),
                       nextId := Suc (nextId s'),
                       writes := writes s' @ [AddNotification]\<rparr>))"

section \<open>Summaries\<close>

text \<open>
  The summarisation service is outside the program: \<open>gen\<close> is its answer to a request,
  \<open>Inl\<close> when it throws, \<open>Inr None\<close> when it returns no summary, \<open>Inr (Some text)\<close> for an
  object whose field \<^verbatim>\<open>summary\<close> is \<open>text\<close>. Every invocation is recorded.
\<close>

type_synonym generator = "SummarizeRequest \<Rightarrow> error + string option"

definition summarizeContent ::
  "generator \<Rightarrow> store \<Rightarrow> SummarizeRequest \<Rightarrow> (error + string option) \<times> store" where
  "summarizeContent gen s req = (gen req, s\<lparr>generatorCalls := generatorCalls s @ [req]\<rparr>)"

text \<open>\<^verbatim>\<open>addDoc(collection(db, POST_SUMMARIES), {postId, summary, createdAt, updatedAt})\<close>.\<close>

definition addDoc_postSummary :: "store \<Rightarrow> string \<Rightarrow> string \<Rightarrow> (error + unit) \<times> store" where
  "addDoc_postSummary s postId text =
     (let (failed, s') = store_call s in
      if failed then (Inl StoreError, s')
      else (Inr (), s'\<lparr>postSummaries := postSummaries s' @
                         [\<lparr>ps_id = nextId s', ps_postId = postId, ps_summary = text,
                           ps_createdAt = clock s', ps_updatedAt = clock s'\<rparr>],
                       clock := Suc (clock s'),
                       nextId := Suc (nextId s'),
                       writes := writes s' @ [AddPostSummary]\<rparr>))"

definition addDoc_commentSummary ::
  "store \<Rightarrow> string \<Rightarrow> string \<Rightarrow> nat \<Rightarrow> (error + unit) \<times> store" where
  "addDoc_commentSummary s postId text n =
     (let (failed, s') = store_call s in
      if failed then (Inl StoreError, s')
      else (Inr (), s'\<lparr>commentSummaries := commentSummaries s' @
                         [\<lparr>cs_id = nextId s', cs_postId = postId, cs_summary = text,
                           cs_commentCount = n,
                           cs_createdAt = clock s', cs_updatedAt = clock s'\<rparr>],
                       clock := Suc (clock s'),
                       nextId := Suc (nextId s'),
                       writes := writes s' @ [AddCommentSummary]\<rparr>))"

text \<open>
  The function \<^verbatim>\<open>generatePostSummary\<close>, lines 186 to 212. The \<^verbatim>\<open>catch\<close> turns every
  rejection inside the \<^verbatim>\<open>try\<close> into the result \<^verbatim>\<open>null\<close>.
\<close>

definition generatePostSummary ::
  "generator \<Rightarrow> store \<Rightarrow> string \<Rightarrow> string \<Rightarrow> (error + string option) \<times> store" where
  "generatePostSummary gen s postId content =
     (case summarizeContent gen s
             \<lparr>req_content = content, req_type = post, req_maxLength = 200\<rparr> of
        (Inl e, s1) \<Rightarrow> (Inr None, s1)
      | (Inr None, s1) \<Rightarrow> (Inr None, s1)
      | (Inr (Some text), s1) \<Rightarrow>
          (case addDoc_postSummary s1 postId text of
             (Inl e, s2) \<Rightarrow> (Inr None, s2)
           | (Inr _, s2) \<Rightarrow> (Inr (Some text), s2)))"

text \<open>\<^verbatim>\<open>Array.prototype.join\<close> with a separator.\<close>

fun join :: "string \<Rightarrow> string list \<Rightarrow> string" where
  "join sep [] = []"
| "join sep [x] = x"
| "join sep (x # y # ys) = x @ sep @ join sep (y # ys)"

text \<open>The function \<^verbatim>\<open>generateCommentSummary\<close>, lines 214 to 245.\<close>

definition combinedContent :: "ForumComment list \<Rightarrow> string" where
  "combinedContent cs =
     join [CHR 0x0A, CHR 0x0A] (map (\<lambda>c. c_author c @ '': '' @ c_content c) cs)"

definition generateCommentSummary ::
  "generator \<Rightarrow> store \<Rightarrow> string \<Rightarrow> ForumComment list \<Rightarrow> (error + string option) \<times> store" where
  "generateCommentSummary gen s postId cs =
     (case summarizeContent gen s
             \<lparr>req_content = combinedContent cs, req_type = comments, req_maxLength = 250\<rparr> of
        (Inl e, s1) \<Rightarrow> (Inr None, s1)
      | (Inr None, s1) \<Rightarrow> (Inr None, s1)
      | (Inr (Some text), s1) \<Rightarrow>
          (case addDoc_commentSummary s1 postId text (length cs) of
             (Inl e, s2) \<Rightarrow> (Inr None, s2)
           | (Inr _, s2) \<Rightarrow> (Inr (Some text), s2)))"

text \<open>The generator fails: it throws, or it returns no summary.\<close>

fun fails :: "error + string option \<Rightarrow> bool" where
  "fails (Inl e) = True"
| "fails (Inr None) = True"
| "fails (Inr (Some t)) = False"

text \<open>
  The query \<^verbatim>\<open>where('postId', '==', postId), orderBy('updatedAt', 'desc'), limit(1)\<close>. The
  store orders documents of equal \<^verbatim>\<open>updatedAt\<close> by their identifier, in the same direction.
\<close>

definition getDocs_postSummaries :: "store \<Rightarrow> string \<Rightarrow> (error + PostSummary list) \<times> store" where
  "getDocs_postSummaries s postId =
     (let (failed, s') = store_call s in
      if failed then (Inl StoreError, s')
      else (Inr (take 1 (rev (sort_key (\<lambda>d. (ps_updatedAt d, ps_id d))
                                 (filter (\<lambda>d. ps_postId d = postId) (postSummaries s'))))),
            s'))"

definition getDocs_commentSummaries ::
  "store \<Rightarrow> string \<Rightarrow> (error + CommentSummary list) \<times> store" where
  "getDocs_commentSummaries s postId =
     (let (failed, s') = store_call s in
      if failed then (Inl StoreError, s')
      else (Inr (take 1 (rev (sort_key (\<lambda>d. (cs_updatedAt d, cs_id d))
                                 (filter (\<lambda>d. cs_postId d = postId) (commentSummaries s'))))),
            s'))"

text \<open>The functions \<^verbatim>\<open>getPostSummary\<close> and \<^verbatim>\<open>getCommentSummary\<close>, lines 248 to 298.\<close>

definition getPostSummary :: "store \<Rightarrow> string \<Rightarrow> (error + PostSummary option) \<times> store" where
  "getPostSummary s postId =
     (case getDocs_postSummaries s postId of
        (Inl e, s1) \<Rightarrow> (Inr None, s1)
      | (Inr docs, s1) \<Rightarrow>
          (case docs of [] \<Rightarrow> (Inr None, s1) | d # _ \<Rightarrow> (Inr (Some d), s1)))"

definition getCommentSummary :: "store \<Rightarrow> string \<Rightarrow> (error + CommentSummary option) \<times> store" where
  "getCommentSummary s postId =
     (case getDocs_commentSummaries s postId of
        (Inl e, s1) \<Rightarrow> (Inr None, s1)
      | (Inr docs, s1) \<Rightarrow>
          (case docs of [] \<Rightarrow> (Inr None, s1) | d # _ \<Rightarrow> (Inr (Some d), s1)))"

text \<open>The live vote values of one voter on one post.\<close>

definition live_votes :: "store \<Rightarrow> string \<Rightarrow> string \<Rightarrow> vote_value set" where
  "live_votes s postId u = {w. votes s (postId, u) = Some (Some w)}"

text \<open>Generators for the examples: one that always answers, one that throws, one that
  returns no summary.\<close>

definition gen_ok :: generator where
  "gen_ok req = Inr (Some ''a summary'')"

definition gen_throws :: generator where
  "gen_throws req = Inl GeneratorError"

definition gen_null :: generator where
  "gen_null req = Inr None"

text \<open>A store for the examples: one post of owner \<open>''owner''\<close> with both counters at \<open>0\<close>.\<close>

definition store0 :: store where
  "store0 = \<lparr>posts = [''p'' \<mapsto> \<lparr>uid = ''owner'', upVotes = 0, downVotes = 0\<rparr>],
             votes = Map.empty, notifications = [], postSummaries = [],
             commentSummaries = [], clock = 0, nextId = 0, faults = [], writes = [],
             generatorCalls = []\<rparr>"

text \<open>
  The same store when the sixth store call from now is rejected, and stores in which
  voter \<open>''a''\<close> already has a live record on the post, counted by the counters.
\<close>

definition store_faulty :: store where
  "store_faulty = store0\<lparr>faults := [False, False, False, False, False, True]\<rparr>"

definition store_up :: store where
  "store_up = store0\<lparr>posts := [''p'' \<mapsto> \<lparr>uid = ''owner'', upVotes = 1, downVotes = 0\<rparr>],
                     votes := [(''p'', ''a'') \<mapsto> Some Up]\<rparr>"

definition store_down :: store where
  "store_down = store0\<lparr>posts := [''p'' \<mapsto> \<lparr>uid = ''owner'', upVotes = 0, downVotes = 1\<rparr>],
                       votes := [(''p'', ''a'') \<mapsto> Some Down]\<rparr>"

text \<open>A store with summary records of two posts.\<close>

definition store_summaries :: store where
  "store_summaries = store0
     \<lparr>postSummaries :=
        [\<lparr>ps_id = 0, ps_postId = ''p'', ps_summary = ''old'', ps_createdAt = 3,
          ps_updatedAt = 3\<rparr>,
         \<lparr>ps_id = 1, ps_postId = ''p'', ps_summary = ''new'', ps_createdAt = 7,
          ps_updatedAt = 7\<rparr>,
         \<lparr>ps_id = 2, ps_postId = ''q'', ps_summary = ''other'', ps_createdAt = 9,
          ps_updatedAt = 9\<rparr>],
      commentSummaries :=
        [\<lparr>cs_id = 3, cs_postId = ''p'', cs_summary = ''two comments'', cs_commentCount = 2,
          cs_createdAt = 8, cs_updatedAt = 8\<rparr>,
         \<lparr>cs_id = 4, cs_postId = ''p'', cs_summary = ''one comment'', cs_commentCount = 1,
          cs_createdAt = 5, cs_updatedAt = 5\<rparr>],
      clock := 10, nextId := 5\<rparr>"

text \<open>Every call of a sequence of submissions by one voter on one post resolves.\<close>

fun all_resolve :: "store \<Rightarrow> string \<Rightarrow> string \<Rightarrow> vote_value list \<Rightarrow> bool" where
  "all_resolve s postId u [] = True"
| "all_resolve s postId u (v # vs) =
     (fst (vote s postId u v) = Inr () \<and> all_resolve (snd (vote s postId u v)) postId u vs)"

text \<open>Stores for the examples in which one coming store call is rejected.\<close>

definition store_reject1 :: store where
  "store_reject1 = store0\<lparr>faults := [True]\<rparr>"

definition store_reject3 :: store where
  "store_reject3 = store0\<lparr>faults := [False, False, True]\<rparr>"

definition store_up_reject3 :: store where
  "store_up_reject3 = store_up\<lparr>faults := [False, False, True]\<rparr>"

definition store_reject8 :: store where
  "store_reject8 =
     store0\<lparr>faults := [False, False, False, False, False, False, False, True]\<rparr>"

definition store_reject9 :: store where
  "store_reject9 =
     store0\<lparr>faults := [False, False, False, False, False, False, False, False, True]\<rparr>"

section \<open>Properties of the voting path\<close>

lemmas vote_defs = vote_def getDoc_vote_def deleteDoc_vote_def updateDoc_post_def
  setDoc_vote_def store_call_def prev_of_def prev_vote_def classify_def counters_def
  add_delta_def Let_def

lemmas eval_defs = vote_defs store0_def

text \<open>Whatever faults are pending: when \<^verbatim>\<open>vote\<close> resolves, the counters moved by the table.\<close>

lemma vote_success_counters:
  assumes "posts s postId = Some d" and "fst (vote s postId u v) = Inr ()"
  shows "counters (snd (vote s postId u v)) postId =
           Some (add_delta (upVotes d, downVotes d) (delta (classify (prev_vote s postId u) v)))"
  using assms
  by (cases v; auto simp: vote_defs split: option.splits vote_value.splits list.splits if_splits)

lemma add_delta_assoc: "add_delta (add_delta a b) c = add_delta a (add_delta b c)"
  by (simp add: add_delta_def)

lemma add_delta_zero: "add_delta a (0, 0) = a"
  by (simp add: add_delta_def)

lemma counters_SomeD:
  "counters s postId = Some x \<Longrightarrow> \<exists>d. posts s postId = Some d \<and> (upVotes d, downVotes d) = x"
  by (auto simp: counters_def)

lemma vote_all_counters:
  "posts s postId = Some d \<Longrightarrow> all_resolve s postId u vs \<Longrightarrow>
   counters (snd (vote_all s postId u vs)) postId =
     Some (add_delta (upVotes d, downVotes d) (sum_deltas (fst (vote_all s postId u vs))))"
proof (induction vs arbitrary: s d)
  case Nil
  then show ?case by (simp add: counters_def add_delta_zero)
next
  case (Cons v vs)
  let ?s1 = "snd (vote s postId u v)"
  let ?t = "classify (prev_vote s postId u) v"
  from Cons.prems(2) have r: "fst (vote s postId u v) = Inr ()"
    and rs: "all_resolve ?s1 postId u vs" by simp_all
  have c1: "counters ?s1 postId = Some (add_delta (upVotes d, downVotes d) (delta ?t))"
    by (rule vote_success_counters[OF Cons.prems(1) r])
  from counters_SomeD[OF c1] obtain d1 where
    d1: "posts ?s1 postId = Some d1"
        "(upVotes d1, downVotes d1) = add_delta (upVotes d, downVotes d) (delta ?t)"
    by blast
  from Cons.IH[OF d1(1) rs] d1(2)
  show ?case
    by (simp add: split_beta add_delta_assoc)
qed

text \<open>
  Claim C1, as stated, fails for a call that is rejected part-way. Voter \<open>''a''\<close> has an
  up-vote counted by the post; the vote is submitted again and the record is deleted,
  but the decrement of the counter is rejected; the vote is submitted once more. The two
  calls are classified \<open>Unvote\<close> and \<open>Cast\<close>, whose deltas sum to nothing, yet the counter
  went from \<open>1\<close> to \<open>2\<close>.
\<close>

theorem rejected_vote_breaks_delta_sum_counterexample:
  "counters store_up_reject3 ''p'' = Some (1, 0) \<and>
   fst (vote_all store_up_reject3 ''p'' ''a'' [Up, Up]) = [Unvote Up, Cast Up] \<and>
   sum_deltas (fst (vote_all store_up_reject3 ''p'' ''a'' [Up, Up])) = (0, 0) \<and>
   counters (snd (vote_all store_up_reject3 ''p'' ''a'' [Up, Up])) ''p'' = Some (2, 0)"
  by (simp add: eval_defs store_up_def store_up_reject3_def)

text \<open>
  Claim C1, amended. For a post that exists, a call of \<^verbatim>\<open>vote\<close> that resolves has changed
  the pair (\<^verbatim>\<open>upVotes\<close>, \<^verbatim>\<open>downVotes\<close>) by exactly the row of the delta table for the
  transition classified from the voter's previous vote; after a sequence of submissions by
  one voter on one post in which every call resolves, the counters are the initial ones
  plus the sum of the deltas of the transitions classified.
\<close>

theorem resolved_votes_follow_delta_table:
  assumes "posts s postId = Some d"
  shows "(fst (vote s postId u v) = Inr () \<longrightarrow>
            counters (snd (vote s postId u v)) postId =
              Some (add_delta (upVotes d, downVotes d)
                      (delta (classify (prev_vote s postId u) v)))) \<and>
         (all_resolve s postId u vs \<longrightarrow>
            counters (snd (vote_all s postId u vs)) postId =
              Some (add_delta (upVotes d, downVotes d)
                      (sum_deltas (fst (vote_all s postId u vs)))))"
  using assms vote_success_counters vote_all_counters by blast

theorem resolved_votes_follow_delta_table_witness:
  "posts store0 ''p'' = Some \<lparr>uid = ''owner'', upVotes = 0, downVotes = 0\<rparr> \<and>
   fst (vote store0 ''p'' ''a'' Up) = Inr () \<and>
   counters (snd (vote store0 ''p'' ''a'' Up)) ''p'' = Some (1, 0) \<and>
   all_resolve store0 ''p'' ''a'' [Up, Up, Down, Up] \<and>
   fst (vote_all store0 ''p'' ''a'' [Up, Up, Down, Up]) =
     [Cast Up, Unvote Up, Cast Down, Switch Up] \<and>
   counters (snd (vote_all store0 ''p'' ''a'' [Up, Up, Down, Up])) ''p'' = Some (1, 0)"
  using resolved_votes_follow_delta_table
          [of store0 "''p''" "\<lparr>uid = ''owner'', upVotes = 0, downVotes = 0\<rparr>" "''a''" Up
              "[Up, Up, Down, Up]"]
  by (simp add: eval_defs)

subsection \<open>Counters and the ledger\<close>

text \<open>What a call of \<^verbatim>\<open>vote\<close> does to the store when no store call is rejected.\<close>

lemma vote_effect:
  assumes "faults s = []"
  shows "faults (snd (vote s p u v)) = []"
    and "posts (snd (vote s p u v)) =
           (case posts s p of None \<Rightarrow> posts s
            | Some d \<Rightarrow> (posts s)(p \<mapsto>
                d\<lparr>upVotes := upVotes d + fst (delta (classify (prev_vote s p u) v)),
                  downVotes := downVotes d + snd (delta (classify (prev_vote s p u) v))\<rparr>))"
    and "votes (snd (vote s p u v)) =
           (if prev_vote s p u = Some v then (votes s)((p, u) := None)
            else if posts s p = None then votes s
            else (votes s)((p, u) \<mapsto> Some v))"
  using assms
  by (cases v; auto simp: vote_defs split: option.splits vote_value.splits)+

lemma finite_voters: "finite (dom (votes s)) \<Longrightarrow> finite (voters s p w)"
proof -
  assume f: "finite (dom (votes s))"
  have "voters s p w \<subseteq> snd ` dom (votes s)"
    by (force simp: voters_def)
  with f show ?thesis by (meson finite_imageI finite_subset)
qed

lemma voters_after_vote:
  assumes nf: "faults s = []" and d: "posts s p = Some d"
  shows "voters (snd (vote s p u v)) p w =
           (if prev_vote s p u = Some v then voters s p w - {u}
            else if w = v then insert u (voters s p w) else voters s p w - {u})"
  using d by (auto simp: voters_def vote_effect(3)[OF nf])

lemma voters_after_vote_other:
  assumes nf: "faults s = []" and q: "q \<noteq> p"
  shows "voters (snd (vote s p u v)) q w = voters s q w"
  using q by (auto simp: voters_def vote_effect(3)[OF nf])

lemma voter_mem: "u \<in> voters s p w \<longleftrightarrow> prev_vote s p u = Some w"
  by (auto simp: voters_def prev_vote_def prev_of_def split: option.splits)

text \<open>The number of live records of each direction moves by the same delta as its counter.\<close>

lemma card_voters_after_vote:
  assumes nf: "faults s = []" and d: "posts s p = Some d" and fin: "finite (dom (votes s))"
  shows "int (card (voters (snd (vote s p u v)) p w)) =
           int (card (voters s p w)) +
             (if w = Up then fst (delta (classify (prev_vote s p u) v))
              else snd (delta (classify (prev_vote s p u) v)))"
proof -
  have f: "finite (voters s p w)" by (rule finite_voters[OF fin])
  have pos: "u \<in> voters s p w \<Longrightarrow> 0 < card (voters s p w)"
    using f by (auto simp: card_gt_0_iff)
  show ?thesis
    using f pos
    by (cases v; cases w; cases "prev_vote s p u"; cases "the (prev_vote s p u)")
       (auto simp: voters_after_vote[OF nf d] classify_def voter_mem card_insert_if
          card_Diff_singleton_if)
qed

lemma ledger_consistent_vote:
  assumes inv: "ledger_consistent s" and nf: "faults s = []"
  shows "ledger_consistent (snd (vote s p u v))"
proof -
  let ?s' = "snd (vote s p u v)"
  let ?dl = "delta (classify (prev_vote s p u) v)"
  note eff = vote_effect[OF nf, of p u v]
  from inv have fin: "finite (dom (votes s))" by (simp add: ledger_consistent_def)
  have fin': "finite (dom (votes ?s'))"
    using fin by (simp add: eff(3))
  have "int (card (voters ?s' q Up)) \<le> upVotes d' \<and>
        int (card (voters ?s' q Down)) \<le> downVotes d'"
    if q: "posts ?s' q = Some d'" for q d'
  proof (cases "q = p")
    case False
    with q have "posts s q = Some d'" by (simp add: eff(2) split: option.splits)
    with inv have "int (card (voters s q Up)) \<le> upVotes d' \<and>
                   int (card (voters s q Down)) \<le> downVotes d'"
      by (simp add: ledger_consistent_def)
    then show ?thesis by (simp add: voters_after_vote_other[OF nf False])
  next
    case True
    with q obtain d where d: "posts s p = Some d"
      by (auto simp: eff(2) split: option.splits)
    with inv have c: "int (card (voters s p Up)) \<le> upVotes d"
      "int (card (voters s p Down)) \<le> downVotes d"
      by (simp_all add: ledger_consistent_def)
    from q True d have d': "upVotes d' = upVotes d + fst ?dl"
      "downVotes d' = downVotes d + snd ?dl"
      by (auto simp: eff(2))
    show ?thesis
      using c d' by (simp add: True card_voters_after_vote[OF nf d fin])
  qed
  with fin' show ?thesis by (simp add: ledger_consistent_def)
qed

lemma ledger_consistent_requests:
  "ledger_consistent s \<Longrightarrow> faults s = [] \<Longrightarrow>
   ledger_consistent (vote_requests s rs) \<and> faults (vote_requests s rs) = []"
proof (induction rs arbitrary: s)
  case Nil
  then show ?case by simp
next
  case (Cons r rs)
  obtain p u v where r: "r = (p, u, v)" by (cases r) auto
  from Cons.prems have "ledger_consistent (snd (vote s p u v))"
    "faults (snd (vote s p u v)) = []"
    by (simp_all add: ledger_consistent_vote vote_effect(1))
  from Cons.IH[OF this] show ?case by (simp add: r)
qed

text \<open>
  Claim C2, as stated, fails. \<^verbatim>\<open>vote\<close> has no underflow check: the decrement is always
  handed to the store. From a fresh post, voter \<open>''a''\<close> votes down, then up while the
  write of the vote record is rejected (the counters have already been switched), then
  up again: the second switch takes \<^verbatim>\<open>downVotes\<close> to \<open>-1\<close>.
\<close>

theorem counter_underflow_counterexample:
  "counters (vote_requests store_faulty
               [(''p'', ''a'', Down), (''p'', ''a'', Up), (''p'', ''a'', Up)]) ''p''
     = Some (2, -1)"
  by (simp add: eval_defs store_faulty_def)

text \<open>
  Claim C2, amended. When the counters of every post are at least the numbers of live
  vote records of their direction and no store call is rejected, any sequence of vote
  operations, by any voters on any posts, keeps them so; hence no counter is negative.
\<close>

theorem counters_nonneg:
  assumes "ledger_consistent s" and "faults s = []"
  shows "ledger_consistent (vote_requests s rs) \<and>
         (\<forall>postId d. posts (vote_requests s rs) postId = Some d \<longrightarrow>
            0 \<le> upVotes d \<and> 0 \<le> downVotes d)"
proof -
  from ledger_consistent_requests[OF assms]
  have lc: "ledger_consistent (vote_requests s rs)" by simp
  have "0 \<le> upVotes d \<and> 0 \<le> downVotes d"
    if "posts (vote_requests s rs) postId = Some d" for postId d
  proof -
    from lc that have "int (card (voters (vote_requests s rs) postId Up)) \<le> upVotes d"
      "int (card (voters (vote_requests s rs) postId Down)) \<le> downVotes d"
      by (simp_all add: ledger_consistent_def)
    then show ?thesis by linarith
  qed
  with lc show ?thesis by blast
qed

theorem counters_nonneg_witness:
  "ledger_consistent store0 \<and> faults store0 = [] \<and>
   ledger_consistent
     (vote_requests store0 [(''p'', ''a'', Up), (''p'', ''b'', Down), (''p'', ''a'', Up)]) \<and>
   posts (vote_requests store0 [(''p'', ''a'', Up), (''p'', ''b'', Down), (''p'', ''a'', Up)])
     ''p'' = Some \<lparr>uid = ''owner'', upVotes = 0, downVotes = 1\<rparr>"
proof -
  have h1: "ledger_consistent store0"
    by (simp add: ledger_consistent_def store0_def voters_def)
  have h2: "faults store0 = []" by (simp add: store0_def)
  have e: "posts (vote_requests store0
                    [(''p'', ''a'', Up), (''p'', ''b'', Down), (''p'', ''a'', Up)]) ''p''
             = Some \<lparr>uid = ''owner'', upVotes = 0, downVotes = 1\<rparr>"
    by (simp add: eval_defs)
  from counters_nonneg[OF h1 h2,
         of "[(''p'', ''a'', Up), (''p'', ''b'', Down), (''p'', ''a'', Up)]"] e h1 h2
  show ?thesis by simp
qed

subsection \<open>Order of the writes, repeated votes, round trips\<close>

lemma delta_cast_unvote:
  "fst (delta (Cast v)) + fst (delta (Unvote v)) = 0"
  "snd (delta (Cast v)) + snd (delta (Unvote v)) = 0"
  by (cases v; simp)+

text \<open>
  Claim C3 on the code. The \<open>Unvote\<close> branch does what the claim says: the record is
  deleted, then the counter is decremented. The \<^verbatim>\<open>else\<close> branch does the opposite for
  \<open>Cast\<close> and for \<open>Switch\<close>: the counters of the post are updated first and the vote
  record is written second. When that second write is rejected, the counter counts a
  vote whose record does not exist.
\<close>

theorem cast_updates_counter_before_record:
  "writes (snd (vote store_up ''p'' ''a'' Up)) =
     [DeleteVote ''p'' ''a'', UpdatePost ''p'' (-1, 0)] \<and>
   writes (snd (vote store0 ''p'' ''a'' Up)) =
     [UpdatePost ''p'' (1, 0), SetVote ''p'' ''a'' Up] \<and>
   writes (snd (vote store_up ''p'' ''a'' Down)) =
     [UpdatePost ''p'' (-1, 1), SetVote ''p'' ''a'' Down] \<and>
   fst (vote store_reject3 ''p'' ''a'' Up) = Inl StoreError \<and>
   counters (snd (vote store_reject3 ''p'' ''a'' Up)) ''p'' = Some (1, 0) \<and>
   votes (snd (vote store_reject3 ''p'' ''a'' Up)) (''p'', ''a'') = None"
  by (simp add: eval_defs store_up_def store_reject3_def)

text \<open>
  Claim C4, as stated, fails. When the voter's record already holds the value, the first
  call is the \<open>Unvote\<close> and the second one is a \<open>Cast\<close> that writes the record again. When
  the record holds the other value, the first call is a \<open>Switch\<close>, and after the second
  call the counter of the other value is one below where it started.
\<close>

theorem repeated_vote_counterexample:
  "classify (prev_vote (snd (vote store_up ''p'' ''a'' Up)) ''p'' ''a'') Up = Cast Up \<and>
   votes (snd (vote (snd (vote store_up ''p'' ''a'' Up)) ''p'' ''a'' Up)) (''p'', ''a'') = Some (Some Up) \<and>
   counters store_down ''p'' = Some (0, 1) \<and>
   counters (snd (vote (snd (vote store_down ''p'' ''a'' Up)) ''p'' ''a'' Up)) ''p'' = Some (0, 0)"
  by (simp add: eval_defs store_up_def store_down_def)

text \<open>
  Claim C4, amended. When the post exists, no store call is rejected and the voter's
  previous vote is not already the submitted value, the second of two equal submissions
  is classified \<open>Unvote\<close> and deletes the record; when the voter had no vote before the
  first submission, the counters are back at their initial values.
\<close>

theorem repeated_vote_unvotes:
  assumes "faults s = []" and "posts s postId = Some d" and "prev_vote s postId u \<noteq> Some v"
  shows "classify (prev_vote (snd (vote s postId u v)) postId u) v = Unvote v \<and>
         votes (snd (vote (snd (vote s postId u v)) postId u v)) (postId, u) = None \<and>
         (prev_vote s postId u = None \<longrightarrow>
            counters (snd (vote (snd (vote s postId u v)) postId u v)) postId = counters s postId)"
proof -
  let ?s1 = "snd (vote s postId u v)"
  note e1 = vote_effect[OF assms(1), of postId u v]
  have v1: "votes ?s1 = (votes s)((postId, u) \<mapsto> Some v)"
    using assms by (simp add: e1(3))
  hence p1: "prev_vote ?s1 postId u = Some v"
    by (simp add: prev_vote_def prev_of_def)
  note e2 = vote_effect[OF e1(1), of postId u v]
  have "votes (snd (vote ?s1 postId u v)) (postId, u) = None"
    by (simp add: e2(3) p1)
  moreover have "counters (snd (vote ?s1 postId u v)) postId = counters s postId"
    if "prev_vote s postId u = None"
    using that assms(2) delta_cast_unvote[of v]
    by (simp add: counters_def e2(2) e1(2) p1 classify_def)
  ultimately show ?thesis using p1 by (simp add: classify_def)
qed

theorem repeated_vote_unvotes_witness:
  "faults store_down = [] \<and>
   posts store_down ''p'' = Some \<lparr>uid = ''owner'', upVotes = 0, downVotes = 1\<rparr> \<and>
   prev_vote store_down ''p'' ''a'' \<noteq> Some Up \<and>
   prev_vote store_down ''p'' ''b'' = None \<and>
   classify (prev_vote (snd (vote store_down ''p'' ''a'' Up)) ''p'' ''a'') Up = Unvote Up \<and>
   votes (snd (vote (snd (vote store_down ''p'' ''a'' Up)) ''p'' ''a'' Up)) (''p'', ''a'') = None \<and>
   counters (snd (vote (snd (vote store_down ''p'' ''b'' Up)) ''p'' ''b'' Up)) ''p'' = Some (0, 1)"
  using repeated_vote_unvotes[of store_down "''p''" "\<lparr>uid = ''owner'', upVotes = 0, downVotes = 1\<rparr>" "''a''" Up]
        repeated_vote_unvotes[of store_down "''p''" "\<lparr>uid = ''owner'', upVotes = 0, downVotes = 1\<rparr>" "''b''" Up]
  by (simp add: store_down_def store0_def prev_vote_def prev_of_def counters_def)

text \<open>A call of \<^verbatim>\<open>vote\<close> that resolves has performed both of its writes.\<close>

lemma vote_resolved_effect:
  assumes "fst (vote s p u v) = Inr ()"
  shows "\<exists>d. posts s p = Some d \<and>
           posts (snd (vote s p u v)) = (posts s)(p \<mapsto>
                d\<lparr>upVotes := upVotes d + fst (delta (classify (prev_vote s p u) v)),
                  downVotes := downVotes d + snd (delta (classify (prev_vote s p u) v))\<rparr>)"
    and "votes (snd (vote s p u v)) =
           (if prev_vote s p u = Some v then (votes s)((p, u) := None)
            else (votes s)((p, u) \<mapsto> Some v))"
  using assms
  by (cases v; auto simp: vote_defs split: option.splits vote_value.splits list.splits if_splits)+

text \<open>
  Claim C5, as stated, fails when a store call of the third submission is rejected. The
  three calls are classified \<open>Cast\<close> of up, \<open>Switch\<close> to down and \<open>Switch\<close> to up; with
  the update of the counters rejected the counters stay at \<open>(0, 1)\<close>, not \<open>(1, 0)\<close>, and
  with the write of the record rejected the record stays at down.
\<close>

theorem rejected_call_breaks_roundtrip_counterexample:
  "prev_vote store_reject8 ''p'' ''a'' = None \<and>
   classify (prev_vote store_reject8 ''p'' ''a'') Up = Cast Up \<and>
   classify (prev_vote (snd (vote store_reject8 ''p'' ''a'' Up)) ''p'' ''a'') Down = Switch Down \<and>
   classify (prev_vote (snd (vote (snd (vote store_reject8 ''p'' ''a'' Up)) ''p'' ''a'' Down))
               ''p'' ''a'') Up = Switch Up \<and>
   counters (snd (vote store_reject8 ''p'' ''a'' Up)) ''p'' = Some (1, 0) \<and>
   counters (snd (vote (snd (vote (snd (vote store_reject8 ''p'' ''a'' Up)) ''p'' ''a'' Down))
                    ''p'' ''a'' Up)) ''p'' = Some (0, 1) \<and>
   prev_vote store_reject9 ''p'' ''a'' = None \<and>
   votes (snd (vote store_reject9 ''p'' ''a'' Up)) (''p'', ''a'') = Some (Some Up) \<and>
   votes (snd (vote (snd (vote (snd (vote store_reject9 ''p'' ''a'' Up)) ''p'' ''a'' Down))
                 ''p'' ''a'' Up)) (''p'', ''a'') = Some (Some Down)"
  by (simp add: eval_defs store_reject8_def store_reject9_def)

text \<open>
  Claim C5, amended. From a store in which the voter has no vote on the post, when the
  three calls voting up, down and up again all resolve, they are a \<open>Cast\<close> of up, a
  \<open>Switch\<close> to down and a \<open>Switch\<close> to up, and they leave the counters of the post and the
  voter's record as they were right after the first call, the record holding up.
\<close>

theorem cast_switch_switch_roundtrip:
  assumes p0: "prev_vote s postId u = None"
    and r1: "fst (vote s postId u Up) = Inr ()"
    and r2: "fst (vote (snd (vote s postId u Up)) postId u Down) = Inr ()"
    and r3: "fst (vote (snd (vote (snd (vote s postId u Up)) postId u Down)) postId u Up) = Inr ()"
  shows "counters (snd (vote (snd (vote (snd (vote s postId u Up)) postId u Down)) postId u Up)) postId
           = counters (snd (vote s postId u Up)) postId \<and>
         votes (snd (vote (snd (vote (snd (vote s postId u Up)) postId u Down)) postId u Up)) (postId, u)
           = votes (snd (vote s postId u Up)) (postId, u) \<and>
         classify (prev_vote s postId u) Up = Cast Up \<and>
         classify (prev_vote (snd (vote s postId u Up)) postId u) Down = Switch Down \<and>
         classify (prev_vote (snd (vote (snd (vote s postId u Up)) postId u Down)) postId u) Up
           = Switch Up \<and>
         votes (snd (vote s postId u Up)) (postId, u) = Some (Some Up)"
proof -
  let ?s1 = "snd (vote s postId u Up)"
  let ?s2 = "snd (vote ?s1 postId u Down)"
  let ?s3 = "snd (vote ?s2 postId u Up)"
  note e1 = vote_resolved_effect[OF r1]
  note e2 = vote_resolved_effect[OF r2]
  note e3 = vote_resolved_effect[OF r3]
  have v1: "votes ?s1 = (votes s)((postId, u) \<mapsto> Some Up)"
    using p0 by (simp add: e1(2))
  have q1: "prev_vote ?s1 postId u = Some Up" by (simp add: prev_vote_def prev_of_def v1)
  have v2: "votes ?s2 = (votes s)((postId, u) \<mapsto> Some Down)"
    by (simp add: e2(2) q1 v1)
  have q2: "prev_vote ?s2 postId u = Some Down" by (simp add: prev_vote_def prev_of_def v2)
  have v3: "votes ?s3 = (votes s)((postId, u) \<mapsto> Some Up)"
    by (simp add: e3(2) q2 v2)
  from e1(1) obtain d where d: "posts s postId = Some d"
    "posts ?s1 = (posts s)(postId \<mapsto>
        d\<lparr>upVotes := upVotes d + fst (delta (classify (prev_vote s postId u) Up)),
          downVotes := downVotes d + snd (delta (classify (prev_vote s postId u) Up))\<rparr>)"
    by blast
  from e2(1) obtain d1 where d1: "posts ?s1 postId = Some d1"
    "posts ?s2 = (posts ?s1)(postId \<mapsto>
        d1\<lparr>upVotes := upVotes d1 + fst (delta (classify (prev_vote ?s1 postId u) Down)),
           downVotes := downVotes d1 + snd (delta (classify (prev_vote ?s1 postId u) Down))\<rparr>)"
    by blast
  from e3(1) obtain d2 where d2: "posts ?s2 postId = Some d2"
    "posts ?s3 = (posts ?s2)(postId \<mapsto>
        d2\<lparr>upVotes := upVotes d2 + fst (delta (classify (prev_vote ?s2 postId u) Up)),
           downVotes := downVotes d2 + snd (delta (classify (prev_vote ?s2 postId u) Up))\<rparr>)"
    by blast
  have c: "counters ?s3 postId = counters ?s1 postId"
    using d1(1) d2(1) by (auto simp: counters_def d2(2) d1(2) q1 q2 classify_def)
  show ?thesis using c v1 v3 q1 q2 p0 by (simp add: classify_def)
qed

theorem cast_switch_switch_roundtrip_witness:
  "prev_vote store0 ''p'' ''a'' = None \<and>
   fst (vote store0 ''p'' ''a'' Up) = Inr () \<and>
   fst (vote (snd (vote store0 ''p'' ''a'' Up)) ''p'' ''a'' Down) = Inr () \<and>
   fst (vote (snd (vote (snd (vote store0 ''p'' ''a'' Up)) ''p'' ''a'' Down)) ''p'' ''a'' Up) = Inr () \<and>
   counters (snd (vote store0 ''p'' ''a'' Up)) ''p'' = Some (1, 0) \<and>
   counters (snd (vote (snd (vote (snd (vote store0 ''p'' ''a'' Up)) ''p'' ''a'' Down)) ''p'' ''a'' Up)) ''p''
     = Some (1, 0) \<and>
   votes (snd (vote (snd (vote (snd (vote store0 ''p'' ''a'' Up)) ''p'' ''a'' Down)) ''p'' ''a'' Up)) (''p'', ''a'')
     = Some (Some Up)"
  using cast_switch_switch_roundtrip[of store0 "''p''" "''a''"]
  by (simp add: eval_defs)

subsection \<open>Notifications\<close>

text \<open>\<^verbatim>\<open>vote\<close> never writes a notification; \<^verbatim>\<open>createNotification\<close> writes one when it resolves.\<close>

lemma vote_keeps_notifications: "notifications (snd (vote s p u v)) = notifications s"
  by (auto simp: vote_defs split: option.splits list.splits prod.splits sum.splits)

lemma vote_requests_keep_notifications: "notifications (vote_requests s rs) = notifications s"
proof (induction rs arbitrary: s)
  case Nil
  then show ?case by simp
next
  case (Cons r rs)
  obtain p u v where r: "r = (p, u, v)" by (cases r) auto
  show ?case by (simp add: r Cons.IH vote_keeps_notifications)
qed

lemma createNotification_effect:
  "fst (createNotification s ty to_uid from_uid postId) = Inr () \<Longrightarrow>
     notifications (snd (createNotification s ty to_uid from_uid postId)) =
       notifications s @ [\<lparr>ntype = ty, toUid = to_uid, fromUid = from_uid,
                            n_postId = postId, n_createdAt = clock s\<rparr>]"
  "fst (createNotification s ty to_uid from_uid postId) \<noteq> Inr () \<Longrightarrow>
     notifications (snd (createNotification s ty to_uid from_uid postId)) = notifications s"
  by (auto simp: createNotification_def store_call_def split: list.splits if_splits)

text \<open>
  Claim C6, as stated, fails: no function of the service applies a notification policy.
  A \<open>Cast\<close> by a voter who is not the owner of the post resolves and dispatches no
  notification, and \<^verbatim>\<open>createNotification\<close> called with the owner as sender and receiver
  stores the notification.
\<close>

theorem no_notification_policy_counterexample:
  "posts store0 ''p'' = Some \<lparr>uid = ''owner'', upVotes = 0, downVotes = 0\<rparr> \<and>
   classify (prev_vote store0 ''p'' ''a'') Up = Cast Up \<and>
   fst (vote store0 ''p'' ''a'' Up) = Inr () \<and>
   notifications (snd (vote store0 ''p'' ''a'' Up)) = [] \<and>
   notifications (snd (createNotification store0 upvote ''owner'' ''owner'' ''p'')) =
     [\<lparr>ntype = upvote, toUid = ''owner'', fromUid = ''owner'', n_postId = ''p'',
       n_createdAt = 0\<rparr>]"
  by (simp add: eval_defs createNotification_def)

text \<open>
  Claim C6, amended. \<^verbatim>\<open>vote\<close> dispatches no notification, whatever the transition and
  whoever the voter, and so does any sequence of vote submissions. Every call of
  \<^verbatim>\<open>createNotification\<close> that resolves appends exactly one notification record, with the
  type, receiver, sender and post it was given, whether or not sender and receiver are
  the same; a call that is rejected appends none.
\<close>

theorem vote_silent_createNotification_unconditional:
  "notifications (snd (vote s postId u v)) = notifications s \<and>
   notifications (vote_requests s rs) = notifications s \<and>
   (fst (createNotification s ty to_uid from_uid postId) = Inr () \<longrightarrow>
      notifications (snd (createNotification s ty to_uid from_uid postId)) =
        notifications s @ [\<lparr>ntype = ty, toUid = to_uid, fromUid = from_uid,
                             n_postId = postId, n_createdAt = clock s\<rparr>]) \<and>
   (fst (createNotification s ty to_uid from_uid postId) \<noteq> Inr () \<longrightarrow>
      notifications (snd (createNotification s ty to_uid from_uid postId)) = notifications s)"
  using vote_keeps_notifications vote_requests_keep_notifications createNotification_effect
  by blast

theorem vote_silent_createNotification_unconditional_witness:
  "fst (createNotification store0 downvote ''owner'' ''a'' ''p'') = Inr () \<and>
   notifications (snd (createNotification store0 downvote ''owner'' ''a'' ''p'')) =
     [\<lparr>ntype = downvote, toUid = ''owner'', fromUid = ''a'', n_postId = ''p'',
       n_createdAt = 0\<rparr>] \<and>
   fst (createNotification store_reject1 downvote ''owner'' ''a'' ''p'') \<noteq> Inr () \<and>
   notifications (snd (createNotification store_reject1 downvote ''owner'' ''a'' ''p'')) = [] \<and>
   notifications (vote_requests store0 [(''p'', ''a'', Up), (''p'', ''b'', Down)]) = []"
  using vote_silent_createNotification_unconditional
          [of store0 "''p''" "''a''" Up "[(''p'', ''a'', Up), (''p'', ''b'', Down)]"
              downvote "''owner''" "''a''"]
        vote_silent_createNotification_unconditional
          [of store_reject1 "''p''" "''a''" Up "[]" downvote "''owner''" "''a''"]
  by (simp add: store0_def store_reject1_def createNotification_def store_call_def)

subsection \<open>Summaries\<close>

lemmas summary_defs = generatePostSummary_def generateCommentSummary_def summarizeContent_def
  addDoc_postSummary_def addDoc_commentSummary_def getPostSummary_def getCommentSummary_def
  getDocs_postSummaries_def getDocs_commentSummaries_def store_call_def Let_def

text \<open>
  Claim C7, as stated, fails: the functions compare no fingerprint and look no record up
  before generating. After a first \<^verbatim>\<open>generatePostSummary\<close> a record for the post exists
  and \<^verbatim>\<open>getPostSummary\<close> returns it; a second call with the same post and the same
  content invokes the generator again and adds a second record.
\<close>

theorem generator_invoked_again_counterexample:
  "fst (getPostSummary (snd (generatePostSummary gen_ok store0 ''p'' ''text'')) ''p'') =
     Inr (Some \<lparr>ps_id = 0, ps_postId = ''p'', ps_summary = ''a summary'',
                ps_createdAt = 0, ps_updatedAt = 0\<rparr>) \<and>
   length (generatorCalls (snd (generatePostSummary gen_ok store0 ''p'' ''text''))) = 1 \<and>
   length (generatorCalls
     (snd (generatePostSummary gen_ok
            (snd (generatePostSummary gen_ok store0 ''p'' ''text'')) ''p'' ''text''))) = 2 \<and>
   length (postSummaries
     (snd (generatePostSummary gen_ok
            (snd (generatePostSummary gen_ok store0 ''p'' ''text'')) ''p'' ''text''))) = 2"
  by (simp add: summary_defs store0_def gen_ok_def)

text \<open>
  Claim C7, amended. Every call of \<^verbatim>\<open>generatePostSummary\<close> and of
  \<^verbatim>\<open>generateCommentSummary\<close> invokes the generator exactly once, whatever the store holds;
  \<^verbatim>\<open>getPostSummary\<close> and \<^verbatim>\<open>getCommentSummary\<close> never invoke it and leave the summary
  records as they are.
\<close>

theorem generator_invoked_on_every_generate:
  "generatorCalls (snd (generatePostSummary gen s postId content)) =
     generatorCalls s @ [\<lparr>req_content = content, req_type = post, req_maxLength = 200\<rparr>] \<and>
   generatorCalls (snd (generateCommentSummary gen s postId cs)) =
     generatorCalls s @
       [\<lparr>req_content = combinedContent cs, req_type = comments, req_maxLength = 250\<rparr>] \<and>
   generatorCalls (snd (getPostSummary s postId)) = generatorCalls s \<and>
   postSummaries (snd (getPostSummary s postId)) = postSummaries s \<and>
   generatorCalls (snd (getCommentSummary s postId)) = generatorCalls s \<and>
   commentSummaries (snd (getCommentSummary s postId)) = commentSummaries s"
  by (auto simp: summary_defs split: sum.splits option.splits list.splits prod.splits)

text \<open>
  Claim C8. When the generator throws or returns no summary, \<^verbatim>\<open>generatePostSummary\<close> and
  \<^verbatim>\<open>generateCommentSummary\<close> resolve to \<^verbatim>\<open>null\<close> and leave the store as it was (only the
  invocation of the generator is recorded): no summary record is written and the earlier
  ones are untouched. On every input both functions resolve, they never reject.
\<close>

theorem generator_failure_returns_null:
  "(fails (gen \<lparr>req_content = content, req_type = post, req_maxLength = 200\<rparr>) \<longrightarrow>
      generatePostSummary gen s postId content =
        (Inr None,
         s\<lparr>generatorCalls := generatorCalls s @
              [\<lparr>req_content = content, req_type = post, req_maxLength = 200\<rparr>]\<rparr>)) \<and>
   (fails (gen \<lparr>req_content = combinedContent cs, req_type = comments, req_maxLength = 250\<rparr>) \<longrightarrow>
      generateCommentSummary gen s postId cs =
        (Inr None,
         s\<lparr>generatorCalls := generatorCalls s @
              [\<lparr>req_content = combinedContent cs, req_type = comments,
                req_maxLength = 250\<rparr>]\<rparr>)) \<and>
   (\<exists>r. fst (generatePostSummary gen s postId content) = Inr r) \<and>
   (\<exists>r. fst (generateCommentSummary gen s postId cs) = Inr r)"
  by (auto simp: summary_defs split: sum.splits option.splits list.splits prod.splits
        elim: fails.elims)

theorem generator_failure_returns_null_witness:
  "fails (gen_throws \<lparr>req_content = ''text'', req_type = post, req_maxLength = 200\<rparr>) \<and>
   fst (generatePostSummary gen_throws store0 ''p'' ''text'') = Inr None \<and>
   postSummaries (snd (generatePostSummary gen_throws store0 ''p'' ''text'')) = [] \<and>
   fails (gen_null \<lparr>req_content = combinedContent [\<lparr>c_author = ''ann'', c_content = ''hi''\<rparr>],
                     req_type = comments, req_maxLength = 250\<rparr>) \<and>
   fst (generateCommentSummary gen_null store0 ''p'' [\<lparr>c_author = ''ann'', c_content = ''hi''\<rparr>]) = Inr None \<and>
   commentSummaries (snd (generateCommentSummary gen_null store0 ''p'' [\<lparr>c_author = ''ann'', c_content = ''hi''\<rparr>])) = []"
  using generator_failure_returns_null
          [where gen = gen_throws and content = "''text''" and s = store0 and postId = "''p''"
             and cs = "[]"]
        generator_failure_returns_null
          [where gen = gen_null and content = "''text''" and s = store0 and postId = "''p''"
             and cs = "[\<lparr>c_author = ''ann'', c_content = ''hi''\<rparr>]"]
  by (simp add: gen_throws_def gen_null_def store0_def)

text \<open>The first document of a descending order is a greatest one.\<close>

lemma latest_is_max:
  fixes f :: "'a \<Rightarrow> 'k::linorder"
  assumes "xs \<noteq> []"
  shows "\<exists>r. take 1 (rev (sort_key f xs)) = [r] \<and> r \<in> set xs \<and> (\<forall>d\<in>set xs. f d \<le> f r)"
proof -
  let ?ys = "sort_key f xs"
  from assms have ne: "?ys \<noteq> []" by (metis length_0_conv length_sort)
  then have t: "take 1 (rev ?ys) = [last ?ys]"
    by (cases ?ys rule: rev_cases) simp_all
  have m: "last ?ys \<in> set xs" using ne by (metis last_in_set set_sort)
  have s: "sorted (map f ?ys)" by (rule sorted_sort_key)
  have "f d \<le> f (last ?ys)" if "d \<in> set xs" for d
  proof -
    from that have "d \<in> set ?ys" by simp
    then obtain i where i: "i < length ?ys" "?ys ! i = d" by (meson in_set_conv_nth)
    have "map f ?ys ! i \<le> map f ?ys ! (length ?ys - 1)"
      using s i(1) by (intro sorted_nth_mono) simp_all
    with i ne show ?thesis by (simp add: last_conv_nth)
  qed
  with t m show ?thesis by blast
qed

lemma fst_le_of_pair_le: "((a::nat), (b::nat)) \<le> (c, d) \<Longrightarrow> a \<le> c"
  by (auto simp: less_eq_prod_def)

text \<open>
  Claim C10. \<^verbatim>\<open>getPostSummary\<close> and \<^verbatim>\<open>getCommentSummary\<close> resolve on every store and every
  post identifier. They resolve to \<^verbatim>\<open>null\<close> when the query is rejected and when no summary
  record of the post exists; when the query succeeds and records of the post exist, they
  resolve to one of these records, and no record of the post has a greater \<^verbatim>\<open>updatedAt\<close>.
\<close>

theorem get_summary_total_and_latest:
  "(\<exists>r. fst (getPostSummary s postId) = Inr r) \<and>
   (fst (store_call s) \<longrightarrow> fst (getPostSummary s postId) = Inr None) \<and>
   (filter (\<lambda>d. ps_postId d = postId) (postSummaries s) = [] \<longrightarrow>
      fst (getPostSummary s postId) = Inr None) \<and>
   (\<not> fst (store_call s) \<and> filter (\<lambda>d. ps_postId d = postId) (postSummaries s) \<noteq> [] \<longrightarrow>
      (\<exists>r. fst (getPostSummary s postId) = Inr (Some r) \<and>
           r \<in> set (postSummaries s) \<and> ps_postId r = postId \<and>
           (\<forall>d\<in>set (postSummaries s). ps_postId d = postId \<longrightarrow>
              ps_updatedAt d \<le> ps_updatedAt r))) \<and>
   (\<exists>r. fst (getCommentSummary s postId) = Inr r) \<and>
   (fst (store_call s) \<longrightarrow> fst (getCommentSummary s postId) = Inr None) \<and>
   (filter (\<lambda>d. cs_postId d = postId) (commentSummaries s) = [] \<longrightarrow>
      fst (getCommentSummary s postId) = Inr None) \<and>
   (\<not> fst (store_call s) \<and> filter (\<lambda>d. cs_postId d = postId) (commentSummaries s) \<noteq> [] \<longrightarrow>
      (\<exists>r. fst (getCommentSummary s postId) = Inr (Some r) \<and>
           r \<in> set (commentSummaries s) \<and> cs_postId r = postId \<and>
           (\<forall>d\<in>set (commentSummaries s). cs_postId d = postId \<longrightarrow>
              cs_updatedAt d \<le> cs_updatedAt r)))"
proof -
  have total_p: "\<exists>r. fst (getPostSummary s postId) = Inr r"
    by (auto simp: getPostSummary_def getDocs_postSummaries_def Let_def
          split: prod.splits sum.splits list.splits)
  have total_c: "\<exists>r. fst (getCommentSummary s postId) = Inr r"
    by (auto simp: getCommentSummary_def getDocs_commentSummaries_def Let_def
          split: prod.splits sum.splits list.splits)
  have fail_p: "fst (getPostSummary s postId) = Inr None" if "fst (store_call s)"
    using that by (auto simp: getPostSummary_def getDocs_postSummaries_def Let_def
          split: prod.splits sum.splits list.splits)
  have fail_c: "fst (getCommentSummary s postId) = Inr None" if "fst (store_call s)"
    using that by (auto simp: getCommentSummary_def getDocs_commentSummaries_def Let_def
          split: prod.splits sum.splits list.splits)
  have ps: "postSummaries (snd (store_call s)) = postSummaries s"
    and cs: "commentSummaries (snd (store_call s)) = commentSummaries s"
    by (simp_all add: store_call_def split: list.splits)
  have none_p: "fst (getPostSummary s postId) = Inr None"
    if "filter (\<lambda>d. ps_postId d = postId) (postSummaries s) = []"
    using that ps by (auto simp: getPostSummary_def getDocs_postSummaries_def Let_def
          split: prod.splits sum.splits list.splits)
  have none_c: "fst (getCommentSummary s postId) = Inr None"
    if "filter (\<lambda>d. cs_postId d = postId) (commentSummaries s) = []"
    using that cs by (auto simp: getCommentSummary_def getDocs_commentSummaries_def Let_def
          split: prod.splits sum.splits list.splits)
  have some_p: "\<exists>r. fst (getPostSummary s postId) = Inr (Some r) \<and>
           r \<in> set (postSummaries s) \<and> ps_postId r = postId \<and>
           (\<forall>d\<in>set (postSummaries s). ps_postId d = postId \<longrightarrow>
              ps_updatedAt d \<le> ps_updatedAt r)"
    if ok: "\<not> fst (store_call s)"
      and ne: "filter (\<lambda>d. ps_postId d = postId) (postSummaries s) \<noteq> []"
  proof -
    let ?ms = "filter (\<lambda>d. ps_postId d = postId) (postSummaries s)"
    from latest_is_max[OF ne, of "\<lambda>d. (ps_updatedAt d, ps_id d)"]
    obtain r where r: "take 1 (rev (sort_key (\<lambda>d. (ps_updatedAt d, ps_id d)) ?ms)) = [r]"
      "r \<in> set ?ms" "\<forall>d\<in>set ?ms. (ps_updatedAt d, ps_id d) \<le> (ps_updatedAt r, ps_id r)"
      by blast
    have "fst (getPostSummary s postId) = Inr (Some r)"
      using ok r(1) ps by (simp add: getPostSummary_def getDocs_postSummaries_def Let_def
          case_prod_beta)
    moreover have "ps_updatedAt d \<le> ps_updatedAt r"
      if "d \<in> set (postSummaries s)" "ps_postId d = postId" for d
      using r(3) that by (auto dest: fst_le_of_pair_le)
    ultimately show ?thesis using r(2) by auto
  qed
  have some_c: "\<exists>r. fst (getCommentSummary s postId) = Inr (Some r) \<and>
           r \<in> set (commentSummaries s) \<and> cs_postId r = postId \<and>
           (\<forall>d\<in>set (commentSummaries s). cs_postId d = postId \<longrightarrow>
              cs_updatedAt d \<le> cs_updatedAt r)"
    if ok: "\<not> fst (store_call s)"
      and ne: "filter (\<lambda>d. cs_postId d = postId) (commentSummaries s) \<noteq> []"
  proof -
    let ?ms = "filter (\<lambda>d. cs_postId d = postId) (commentSummaries s)"
    from latest_is_max[OF ne, of "\<lambda>d. (cs_updatedAt d, cs_id d)"]
    obtain r where r: "take 1 (rev (sort_key (\<lambda>d. (cs_updatedAt d, cs_id d)) ?ms)) = [r]"
      "r \<in> set ?ms" "\<forall>d\<in>set ?ms. (cs_updatedAt d, cs_id d) \<le> (cs_updatedAt r, cs_id r)"
      by blast
    have "fst (getCommentSummary s postId) = Inr (Some r)"
      using ok r(1) cs by (simp add: getCommentSummary_def getDocs_commentSummaries_def Let_def
          case_prod_beta)
    moreover have "cs_updatedAt d \<le> cs_updatedAt r"
      if "d \<in> set (commentSummaries s)" "cs_postId d = postId" for d
      using r(3) that by (auto dest: fst_le_of_pair_le)
    ultimately show ?thesis using r(2) by auto
  qed
  from total_p total_c fail_p fail_c none_p none_c some_p some_c show ?thesis
    by blast
qed

theorem get_summary_total_and_latest_witness:
  "\<not> fst (store_call store_summaries) \<and>
   filter (\<lambda>d. ps_postId d = ''p'') (postSummaries store_summaries) \<noteq> [] \<and>
   filter (\<lambda>d. cs_postId d = ''p'') (commentSummaries store_summaries) \<noteq> [] \<and>
   fst (getPostSummary store_summaries ''p'') =
     Inr (Some \<lparr>ps_id = 1, ps_postId = ''p'', ps_summary = ''new'', ps_createdAt = 7,
                ps_updatedAt = 7\<rparr>) \<and>
   fst (getCommentSummary store_summaries ''p'') =
     Inr (Some \<lparr>cs_id = 3, cs_postId = ''p'', cs_summary = ''two comments'',
                cs_commentCount = 2, cs_createdAt = 8, cs_updatedAt = 8\<rparr>) \<and>
   fst (store_call (store_summaries\<lparr>faults := [True]\<rparr>)) \<and>
   fst (getPostSummary (store_summaries\<lparr>faults := [True]\<rparr>) ''p'') = Inr None \<and>
   fst (getCommentSummary (store_summaries\<lparr>faults := [True]\<rparr>) ''p'') = Inr None \<and>
   filter (\<lambda>d. cs_postId d = ''q'') (commentSummaries store_summaries) = [] \<and>
   fst (getCommentSummary store_summaries ''q'') = Inr None"
  using get_summary_total_and_latest[of store_summaries "''p''"]
        get_summary_total_and_latest[of "store_summaries\<lparr>faults := [True]\<rparr>" "''p''"]
        get_summary_total_and_latest[of store_summaries "''q''"]
  by (simp add: store_summaries_def store0_def store_call_def getPostSummary_def
        getCommentSummary_def getDocs_postSummaries_def getDocs_commentSummaries_def
        less_eq_prod_def)

subsection \<open>One vote record per voter and post\<close>

text \<open>
  The vote record of voter \<open>u\<close> on post \<open>postId\<close> is the document
  \<^verbatim>\<open>{FORUM_POSTS}/{postId}/{VOTES}/{u}\<close>, the entry of \<open>votes\<close> at the key \<open>(postId, u)\<close>;
  \<^verbatim>\<open>vote\<close> reads, deletes and writes this document and no other vote document, whatever
  store calls are rejected.
\<close>

lemma vote_frame: "k \<noteq> (postId, u) \<Longrightarrow> votes (snd (vote s postId u v)) k = votes s k"
  by (auto simp: vote_defs split: option.splits list.splits prod.splits sum.splits)

lemma vote_record_after:
  "votes (snd (vote s postId u v)) (postId, u) = None \<or>
   votes (snd (vote s postId u v)) (postId, u) = Some (Some v) \<or>
   votes (snd (vote s postId u v)) (postId, u) = votes s (postId, u)"
  by (auto simp: vote_defs split: option.splits list.splits prod.splits sum.splits)

lemma card_live_votes: "card (live_votes s postId u) \<le> 1"
proof -
  have "live_votes s postId u \<subseteq> (case votes s (postId, u) of Some (Some w) \<Rightarrow> {w} | _ \<Rightarrow> {})"
    by (auto simp: live_votes_def)
  moreover have "card (case votes s (postId, u) of Some (Some w) \<Rightarrow> {w} | _ \<Rightarrow> {}) \<le> 1"
    "finite (case votes s (postId, u) of Some (Some w) \<Rightarrow> {w} | _ \<Rightarrow> {})"
    by (auto split: option.splits)
  ultimately show ?thesis by (meson card_mono le_trans)
qed

lemma vote_requests_dom:
  "dom (votes (vote_requests s rs)) \<subseteq> dom (votes s) \<union> (\<lambda>(p, u, v). (p, u)) ` set rs"
proof (induction rs arbitrary: s)
  case Nil
  then show ?case by simp
next
  case (Cons r rs)
  obtain p u v where r: "r = (p, u, v)" by (cases r) auto
  have "dom (votes (snd (vote s p u v))) \<subseteq> insert (p, u) (dom (votes s))"
  proof
    fix k assume k: "k \<in> dom (votes (snd (vote s p u v)))"
    show "k \<in> insert (p, u) (dom (votes s))"
    proof (cases "k = (p, u)")
      case True then show ?thesis by simp
    next
      case False
      from vote_frame[OF False, of s v] k show ?thesis by (auto simp: dom_def)
    qed
  qed
  with Cons.IH[of "snd (vote s p u v)"] show ?case by (auto simp: r)
qed

text \<open>
  Claim C9. After any sequence of vote operations, by any voters on any posts and
  whatever store calls are rejected, a voter has at most one live vote on a post. A
  missing record reads as no vote. A call of \<^verbatim>\<open>vote\<close> changes no record but the one of its
  own voter and post, which it deletes, sets to the submitted value or leaves as it is;
  a sequence of calls creates records only under the pairs of post and voter it was
  called with.
\<close>

theorem one_vote_record_per_voter:
  "card (live_votes (vote_requests s rs) postId u) \<le> 1 \<and>
   (votes s (postId, u) = None \<longrightarrow> prev_vote s postId u = None) \<and>
   (\<forall>k. k \<noteq> (postId, u) \<longrightarrow> votes (snd (vote s postId u v)) k = votes s k) \<and>
   (votes (snd (vote s postId u v)) (postId, u) = None \<or>
    votes (snd (vote s postId u v)) (postId, u) = Some (Some v) \<or>
    votes (snd (vote s postId u v)) (postId, u) = votes s (postId, u)) \<and>
   dom (votes (vote_requests s rs)) \<subseteq> dom (votes s) \<union> (\<lambda>(p, u, v). (p, u)) ` set rs"
  using card_live_votes vote_frame vote_record_after vote_requests_dom
  by (simp add: prev_vote_def prev_of_def)

theorem one_vote_record_per_voter_witness:
  "votes store0 (''p'', ''a'') = None \<and> prev_vote store0 ''p'' ''a'' = None \<and>
   (''p'', ''b'') \<noteq> (''p'', ''a'') \<and>
   votes (snd (vote store_up ''p'' ''b'' Down)) (''p'', ''a'') = Some (Some Up) \<and>
   votes (snd (vote store_up ''p'' ''b'' Down)) (''p'', ''b'') = Some (Some Down) \<and>
   live_votes (vote_requests store0 [(''p'', ''a'', Up), (''p'', ''a'', Down)]) ''p'' ''a'' = {Down}"
  using one_vote_record_per_voter[of store0 "[(''p'', ''a'', Up), (''p'', ''a'', Down)]" "''p''" "''a''" Up]
        one_vote_record_per_voter[of store_up "[]" "''p''" "''b''" Down]
  by (auto simp: eval_defs store_up_def live_votes_def)

end
